theory Spec2Isabelle
  imports Main
begin

section \<open>The template Turing machine of turing-machine.cpp\<close>

text \<open>
  The C++ program computes with types: a stack, a tape, an instruction and a machine are
  template instances, an operation is a member alias \<open>type\<close>, \<open>match\<close> or \<open>result\<close>, and the
  run of a machine is the instantiation of \<open>run<Machine>::result\<close>. The embedding turns
  each template into a function on values, keeping the names of the source. A template
  instance that does not compile (a movement character for which \<open>move_tape\<close> has no
  specialisation) is an error value; a run that produces no machine, because the
  instantiation of \<open>run\<close> never comes to an end, is \<open>None\<close>.
\<close>

subsection \<open>Stacks and tapes\<close>

text \<open>\<open>constexpr char empty = '#'\<close> and \<open>constexpr char wildcard = '?'\<close>.\<close>

definition empty :: char where
  "empty = CHR ''#''"

definition wildcard :: char where
  "wildcard = CHR ''?''"

text \<open>\<open>struct nil\<close> and \<open>template <char Head, typename Tail> struct stack\<close>.\<close>

datatype stack = nil | stack char stack

text \<open>The members \<open>top\<close> and \<open>tail\<close>: \<open>nil\<close> has \<open>top = empty\<close> and \<open>tail = nil\<close>.\<close>

fun top :: "stack \<Rightarrow> char" where
  "top nil = empty"
| "top (stack Head Tail) = Head"

fun tail :: "stack \<Rightarrow> stack" where
  "tail nil = nil"
| "tail (stack Head Tail) = Tail"

definition push :: "char \<Rightarrow> stack \<Rightarrow> stack" where
  "push New s = stack New s"

definition pop :: "stack \<Rightarrow> stack" where
  "pop s = tail s"

text \<open>\<open>template <typename Left, char Head, typename Right> struct tape\<close>.\<close>

record tape =
  left :: stack
  head :: char
  right :: stack

definition move_left :: "tape \<Rightarrow> tape" where
  "move_left t =
     \<lparr>left = pop (left t), head = top (left t), right = push (head t) (right t)\<rparr>"

definition move_right :: "tape \<Rightarrow> tape" where
  "move_right t =
     \<lparr>left = push (head t) (left t), head = top (right t), right = pop (right t)\<rparr>"

text \<open>\<open>detail::stackify\<close> and \<open>make_tape\<close>, on the pack of characters as a list.\<close>

fun stackify :: "char list \<Rightarrow> stack" where
  "stackify (C # Cs) = stack C (stackify Cs)"
| "stackify [] = nil"

fun make_tape :: "char list \<Rightarrow> tape" where
  "make_tape (First # Rest) = \<lparr>left = nil, head = First, right = stackify Rest\<rparr>"
| "make_tape [] = \<lparr>left = nil, head = CHR ''#'', right = nil\<rparr>"

text \<open>
  \<open>print_stack\<close>, \<open>print_stack_reverse\<close> and \<open>print_tape\<close> write to \<open>std::cout\<close>; here they
  return the characters written.
\<close>

fun print_stack :: "stack \<Rightarrow> bool \<Rightarrow> string" where
  "print_stack (stack Head Tail) space =
     (if space then '' '' else '''') @ [Head] @ print_stack Tail True"
| "print_stack nil space = (if space then '' '' else '''')"

fun print_stack_reverse :: "stack \<Rightarrow> string" where
  "print_stack_reverse (stack Head Tail) = print_stack_reverse Tail @ [Head] @ '' ''"
| "print_stack_reverse nil = ''''"

definition print_tape :: "tape \<Rightarrow> string" where
  "print_tape t =
     print_stack_reverse (left t) @ ''['' @ [head t] @ '']'' @ print_stack (right t) True
       @ [CHR 0x0A]"

text \<open>
  \<open>move_tape\<close> has the three specialisations \<open>'L'\<close>, \<open>'R'\<close> and \<open>'0'\<close>; the primary template
  is declared and never defined, so any other character names an incomplete type.
\<close>

definition move_tape :: "char \<Rightarrow> tape \<Rightarrow> tape option" where
  "move_tape Dir t =
     (if Dir = CHR ''L'' then Some (move_left t)
      else if Dir = CHR ''R'' then Some (move_right t)
      else if Dir = CHR ''0'' then Some t
      else None)"

text \<open>\<open>write_tape\<close>, with its specialisation for \<open>wildcard\<close>.\<close>

definition write_tape :: "tape \<Rightarrow> char \<Rightarrow> tape" where
  "write_tape t C =
     (if C = wildcard then t else \<lparr>left = left t, head = C, right = right t\<rparr>)"

subsection \<open>Instructions and programs\<close>

text \<open>
  A state of the machine is a type of the C++ program, compared with \<open>std::is_same\<close>,
  with a static member \<open>final\<close> (the helper \<open>template <bool Final = false> struct state\<close>).
  Here it is its name together with that member.
\<close>

record 'n state =
  ident :: 'n
  final :: bool

record 'n instruction =
  from_state :: "'n state"
  head_read :: char
  to_state :: "'n state"
  head_write :: char
  movement :: char

text \<open>
  \<open>execute_instruction\<close> has the members \<open>state\<close> and \<open>tape\<close>; the second one exists
  only when \<open>move_tape\<close> does.
\<close>

definition execute_instruction_state :: "'n instruction \<Rightarrow> tape \<Rightarrow> 'n state" where
  "execute_instruction_state i t = to_state i"

definition execute_instruction_tape :: "'n instruction \<Rightarrow> tape \<Rightarrow> tape option" where
  "execute_instruction_tape i t = move_tape (movement i) (write_tape t (head_write i))"

text \<open>\<open>detail::match_helper\<close>; \<open>struct fail\<close> is \<open>None\<close>.\<close>

fun match_helper :: "'n state \<Rightarrow> char \<Rightarrow> 'n instruction list \<Rightarrow> 'n instruction option" where
  "match_helper State Head (First # Rest) =
     (if State = from_state First \<and> (Head = head_read First \<or> head_read First = wildcard)
      then Some First
      else match_helper State Head Rest)"
| "match_helper State Head [] = None"

text \<open>\<open>template <typename... Instructions> struct program\<close> is the list of its instructions.\<close>

type_synonym 'n program = "'n instruction list"

definition match_instruction :: "'n program \<Rightarrow> 'n state \<Rightarrow> char \<Rightarrow> 'n instruction option" where
  "match_instruction Instructions State Head = match_helper State Head Instructions"

subsection \<open>The machine\<close>

record 'n machine =
  state :: "'n state"
  tape :: tape
  program :: "'n program"

definition cont :: "'n machine \<Rightarrow> 'n instruction option \<Rightarrow> bool" where
  "cont m NextInstruction = (\<not> final (state m) \<and> NextInstruction \<noteq> None)"

text \<open>
  An instance that does not compile: \<open>move_tape\<close> used at a character other than
  \<open>'L'\<close>, \<open>'R'\<close>, \<open>'0'\<close>, or \<open>execute_instruction\<close> used on \<open>fail\<close>.
\<close>

datatype error = No_move_tape char | Not_an_instruction

text \<open>
  \<open>detail::run_helper<Machine, NextInstruction, Continue>::result\<close> is \<open>Machine\<close> when
  \<open>Continue\<close> is false, and otherwise the result of \<open>run\<close> on the machine built from
  \<open>execute_instruction\<close>. The function returns which of the two it is: \<open>Result\<close> with the
  machine, or \<open>Run\<close> with the machine that \<open>run\<close> is instantiated on next.
\<close>

datatype 'n run_helper_result = Result "'n machine" | Run "'n machine" | Ill_formed error

fun run_helper :: "'n machine \<Rightarrow> 'n instruction option \<Rightarrow> bool \<Rightarrow> 'n run_helper_result" where
  "run_helper m (Some NextInstruction) True =
     (case execute_instruction_tape NextInstruction (tape m) of
        Some t \<Rightarrow>
          Run \<lparr>state = execute_instruction_state NextInstruction (tape m), tape = t,
               program = program m\<rparr>
      | None \<Rightarrow> Ill_formed (No_move_tape (movement NextInstruction)))"
| "run_helper m None True = Ill_formed Not_an_instruction"
| "run_helper m NextInstruction False = Result m"

text \<open>
  The body of \<open>run\<close>: \<open>next\<close> is the matched instruction, and the third argument of
  \<open>run_helper\<close> is \<open>cont<Machine, next>::value\<close>.
\<close>

definition step :: "'n machine \<Rightarrow> 'n run_helper_result" where
  "step m =
     (let next = match_instruction (program m) (state m) (head (tape m))
      in run_helper m next (cont m next))"

text \<open>
  \<open>run<Machine>::result\<close>. The instantiation may ask for a further instance of \<open>run\<close>
  without end (or for the very instance that is being made); \<open>None\<close> is such a run, which
  produces no result.
\<close>

partial_function (option) run :: "'n machine \<Rightarrow> (error + 'n machine) option" where
  "run m =
     (case step m of
        Result r \<Rightarrow> Some (Inr r)
      | Run m' \<Rightarrow> run m'
      | Ill_formed e \<Rightarrow> Some (Inl e))"

text \<open>The machine after at most \<open>n\<close> instantiations of \<open>run\<close>.\<close>

fun steps :: "nat \<Rightarrow> 'n machine \<Rightarrow> 'n run_helper_result" where
  "steps 0 m = Run m"
| "steps (Suc n) m =
     (case step m of
        Result r \<Rightarrow> Result r
      | Run m' \<Rightarrow> steps n m'
      | Ill_formed e \<Rightarrow> Ill_formed e)"

text \<open>The first line that \<open>print_result\<close> writes.\<close>

definition print_result_verdict :: "'n machine \<Rightarrow> string" where
  "print_result_verdict m =
     (if final (state m) then ''Input accepted.'' else ''Input not accepted.'')"

text \<open>
  What a run that ends gives: the last machine, or the instance that does not compile.
  A machine that \<open>run\<close> is still to be instantiated on gives nothing yet.
\<close>

fun outcome :: "'n run_helper_result \<Rightarrow> (error + 'n machine) option" where
  "outcome (Result r) = Some (Inr r)"
| "outcome (Run m) = None"
| "outcome (Ill_formed e) = Some (Inl e)"

subsection \<open>The contents of a tape\<close>

text \<open>
  The cells that a stack holds, nearest the head first, and the cells of a tape from left
  to right: the order in which \<open>print_tape\<close> writes them.
\<close>

fun cells :: "stack \<Rightarrow> char list" where
  "cells nil = []"
| "cells (stack Head Tail) = Head # cells Tail"

definition tape_cells :: "tape \<Rightarrow> char list" where
  "tape_cells t = rev (cells (left t)) @ [head t] @ cells (right t)"

text \<open>
  The symbol \<open>n\<close> cells down a stack, read with \<open>top\<close> and \<open>tail\<close> alone, so that below the
  last cell every symbol is \<open>empty\<close>; and the symbol of a tape \<open>i\<close> cells to the right of
  the head (to the left when \<open>i\<close> is negative).
\<close>

fun cell_at :: "stack \<Rightarrow> nat \<Rightarrow> char" where
  "cell_at s 0 = top s"
| "cell_at s (Suc n) = cell_at (tail s) n"

definition read_at :: "tape \<Rightarrow> int \<Rightarrow> char" where
  "read_at t i =
     (if i = 0 then head t
      else if i < 0 then cell_at (left t) (nat (- i - 1))
      else cell_at (right t) (nat (i - 1)))"

text \<open>
  Equality of contents: two stacks agree when they hold the same symbols as far as both
  reach and the longer one holds only \<open>empty\<close> from there on.
\<close>

fun stack_equiv :: "stack \<Rightarrow> stack \<Rightarrow> bool" where
  "stack_equiv nil nil = True"
| "stack_equiv nil (stack h t) = (h = empty \<and> stack_equiv nil t)"
| "stack_equiv (stack h t) nil = (h = empty \<and> stack_equiv t nil)"
| "stack_equiv (stack h t) (stack h' t') = (h = h' \<and> stack_equiv t t')"

definition tape_equiv :: "tape \<Rightarrow> tape \<Rightarrow> bool" where
  "tape_equiv t u =
     (head t = head u \<and> stack_equiv (left t) (left u) \<and> stack_equiv (right t) (right u))"

subsection \<open>The reversal machine of \<open>main\<close>\<close>

text \<open>
  The states declared in \<open>main\<close> for the first machine: each is \<open>state<>\<close>, except \<open>end\<close>,
  which is \<open>state<true>\<close>.
\<close>

datatype reverse_state =
  put_right_marker | rewind | go_right_a | go_right_b | go_left_a | go_left_b
  | take_left | take_right | clear | clear_a | clear_b | clear_last | end_state

definition state_of :: "reverse_state \<Rightarrow> reverse_state state" where
  "state_of n = \<lparr>ident = n, final = (n = end_state)\<rparr>"

definition instr ::
  "reverse_state \<Rightarrow> char \<Rightarrow> reverse_state \<Rightarrow> char \<Rightarrow> char \<Rightarrow> reverse_state instruction" where
  "instr FromState HeadRead ToState HeadWrite Movement =
     \<lparr>from_state = state_of FromState, head_read = HeadRead, to_state = state_of ToState,
      head_write = HeadWrite, movement = Movement\<rparr>"

definition reverse_prog :: "reverse_state program" where
  "reverse_prog =
    [instr put_right_marker CHR ''#'' rewind CHR ''|'' CHR ''L'',
     instr put_right_marker CHR ''?'' put_right_marker CHR ''?'' CHR ''R'',

     instr rewind CHR ''#'' take_left CHR ''#'' CHR ''R'',
     instr rewind CHR ''?'' rewind CHR ''?'' CHR ''L'',

     instr take_left CHR ''a'' go_right_a CHR ''|'' CHR ''R'',
     instr take_left CHR ''b'' go_right_b CHR ''|'' CHR ''R'',
     instr take_left CHR ''|'' clear CHR ''|'' CHR ''R'',

     instr go_right_a CHR ''|'' take_right CHR ''a'' CHR ''L'',
     instr go_right_b CHR ''|'' take_right CHR ''b'' CHR ''L'',
     instr go_right_a CHR ''?'' go_right_a CHR ''?'' CHR ''R'',
     instr go_right_b CHR ''?'' go_right_b CHR ''?'' CHR ''R'',

     instr take_right CHR ''a'' go_left_a CHR ''|'' CHR ''L'',
     instr take_right CHR ''b'' go_left_b CHR ''|'' CHR ''L'',
     instr take_right CHR ''|'' clear CHR ''|'' CHR ''R'',

     instr go_left_a CHR ''|'' take_left CHR ''a'' CHR ''R'',
     instr go_left_b CHR ''|'' take_left CHR ''b'' CHR ''R'',
     instr go_left_a CHR ''?'' go_left_a CHR ''?'' CHR ''L'',
     instr go_left_b CHR ''?'' go_left_b CHR ''?'' CHR ''L'',

     instr clear CHR ''a'' clear_a CHR ''|'' CHR ''L'',
     instr clear CHR ''b'' clear_b CHR ''|'' CHR ''L'',
     instr clear CHR ''|'' clear CHR ''|'' CHR ''R'',
     instr clear CHR ''#'' clear_last CHR ''#'' CHR ''L'',
     instr clear_a CHR ''|'' clear CHR ''a'' CHR ''R'',
     instr clear_b CHR ''|'' clear CHR ''b'' CHR ''R'',
     instr clear_last CHR ''|'' end_state CHR ''#'' CHR ''0'']"

definition reverse_tape1 :: tape where
  "reverse_tape1 = make_tape ''abaabba''"

text \<open>\<open>machine<put_right_marker, reverse_tape1, reverse_prog>\<close>, the first machine executed.\<close>

definition reverse_machine1 :: "reverse_state machine" where
  "reverse_machine1 =
     \<lparr>state = state_of put_right_marker, tape = reverse_tape1, program = reverse_prog\<rparr>"

subsection \<open>The machine that stays where it is\<close>

text \<open>
  The program of the single instruction \<open>(S, '#', S, '#', '0')\<close> for a state \<open>S\<close> that is
  not final, on the tape \<open>make_tape<>\<close>.
\<close>

definition stay_state :: "'n \<Rightarrow> 'n state" where
  "stay_state S = \<lparr>ident = S, final = False\<rparr>"

definition stay_prog :: "'n \<Rightarrow> 'n program" where
  "stay_prog S =
     [\<lparr>from_state = stay_state S, head_read = CHR ''#'', to_state = stay_state S,
       head_write = CHR ''#'', movement = CHR ''0''\<rparr>]"

definition stay_machine :: "'n \<Rightarrow> 'n machine" where
  "stay_machine S = \<lparr>state = stay_state S, tape = make_tape [], program = stay_prog S\<rparr>"

subsection \<open>Matching, as the specification words it\<close>

text \<open>
  The specification's \<open>match(state, symbol)\<close>: an instruction qualifies when its from-state
  equals the state and its read-symbol equals the symbol or equals the wildcard, and the
  match is the first instruction of the list that qualifies, if there is one.
\<close>

definition qualifies :: "'n state \<Rightarrow> char \<Rightarrow> 'n instruction \<Rightarrow> bool" where
  "qualifies s c i = (from_state i = s \<and> (head_read i = c \<or> head_read i = wildcard))"

definition spec_match :: "'n program \<Rightarrow> 'n state \<Rightarrow> char \<Rightarrow> 'n instruction option" where
  "spec_match P s c = find (qualifies s c) P"

section \<open>Runs that end and runs that do not\<close>

text \<open>
  \<open>run\<close> gives a result exactly when some number of instantiations reaches it, and it
  gives none exactly when every number of instantiations leaves a machine to go on with.
\<close>

lemma steps_outcome_run: "outcome (steps n m) = Some y \<Longrightarrow> run m = Some y"
proof (induction n arbitrary: m)
  case 0
  then show ?case by simp
next
  case (Suc n)
  show ?case
  proof (cases "step m")
    case (Result r)
    with Suc.prems show ?thesis by (subst run.simps) simp
  next
    case (Run m')
    with Suc.prems have "outcome (steps n m') = Some y" by simp
    then have "run m' = Some y" by (rule Suc.IH)
    with Run show ?thesis by (subst run.simps) simp
  next
    case (Ill_formed e)
    with Suc.prems show ?thesis by (subst run.simps) simp
  qed
qed

lemma run_outcome_steps:
  assumes "run m = Some y"
  shows "\<exists>n. outcome (steps n m) = Some y"
proof (rule run.raw_induct [where P = "\<lambda>m y. \<exists>n. outcome (steps n m) = Some y", OF _ assms])
  fix f :: "'a machine \<Rightarrow> (error + 'a machine) option" and m y
  assume IH: "\<And>x y. f x = Some y \<Longrightarrow> \<exists>n. outcome (steps n x) = Some y"
    and body: "(case step m of Result r \<Rightarrow> Some (Inr r) | Run m' \<Rightarrow> f m'
                | Ill_formed e \<Rightarrow> Some (Inl e)) = Some y"
  show "\<exists>n. outcome (steps n m) = Some y"
  proof (cases "step m")
    case (Result r)
    with body have "outcome (steps (Suc 0) m) = Some y" by auto
    then show ?thesis ..
  next
    case (Run m')
    with body have "f m' = Some y" by simp
    from IH [OF this] obtain n where "outcome (steps n m') = Some y" ..
    with Run have "outcome (steps (Suc n) m) = Some y" by simp
    then show ?thesis ..
  next
    case (Ill_formed e)
    with body have "outcome (steps (Suc 0) m) = Some y" by auto
    then show ?thesis ..
  qed
qed

lemma run_None_iff: "run m = None \<longleftrightarrow> (\<forall>n. outcome (steps n m) = None)"
proof
  assume "run m = None"
  then show "\<forall>n. outcome (steps n m) = None"
    by (metis steps_outcome_run option.exhaust option.distinct(1))
next
  assume "\<forall>n. outcome (steps n m) = None"
  then show "run m = None"
    by (metis run_outcome_steps option.exhaust option.distinct(1))
qed


lemma step_Result_run: "step m = Result r \<Longrightarrow> run m = Some (Inr r)"
  by (subst run.simps) simp

section \<open>Final states\<close>

lemma step_final: "final (state m) \<Longrightarrow> step m = Result m"
  by (simp add: step_def cont_def Let_def)

text \<open>
  C1. From a final state \<open>s\<close>, with any tape \<open>T\<close> and any program \<open>P\<close>, the very first
  instantiation of \<open>run\<close> gives the result: the machine itself, with state \<open>s\<close> and tape \<open>T\<close>
  as they were, reported as accepted. The state and the tape of the result are \<open>s\<close> and
  \<open>T\<close> whatever \<open>P\<close> is: the instruction that \<open>run\<close> looks up plays no part in it.
\<close>

theorem final_state_accepted:
  assumes "final s"
  shows "step \<lparr>state = s, tape = T, program = P\<rparr> = Result \<lparr>state = s, tape = T, program = P\<rparr>
    \<and> run \<lparr>state = s, tape = T, program = P\<rparr> = Some (Inr \<lparr>state = s, tape = T, program = P\<rparr>)
    \<and> print_result_verdict \<lparr>state = s, tape = T, program = P\<rparr> = ''Input accepted.''
    \<and> map_option (map_sum id (\<lambda>r. (state r, tape r))) (run \<lparr>state = s, tape = T, program = P\<rparr>)
        = Some (Inr (s, T))"
proof -
  let ?m = "\<lparr>state = s, tape = T, program = P\<rparr>"
  have s: "step ?m = Result ?m" using assms by (simp add: step_final)
  then have r: "run ?m = Some (Inr ?m)" by (rule step_Result_run)
  have v: "print_result_verdict ?m = ''Input accepted.''"
    using assms by (simp add: print_result_verdict_def)
  from s r v show ?thesis by simp
qed

theorem final_state_accepted_witness:
  "final (state_of end_state)
   \<and> run \<lparr>state = state_of end_state, tape = make_tape ''ab'', program = reverse_prog\<rparr>
      = Some (Inr \<lparr>state = state_of end_state, tape = make_tape ''ab'', program = reverse_prog\<rparr>)
   \<and> run \<lparr>state = state_of end_state, tape = make_tape ''ab'', program = []\<rparr>
      = Some (Inr \<lparr>state = state_of end_state, tape = make_tape ''ab'', program = []\<rparr>)"
proof -
  have f: "final (state_of end_state)" by (simp add: state_of_def)
  show ?thesis
    using f final_state_accepted [OF f, of "make_tape ''ab''" reverse_prog]
      final_state_accepted [OF f, of "make_tape ''ab''" "[]"]
    by simp
qed

section \<open>Matching an instruction\<close>

lemma match_helper_find: "match_helper s c P = find (qualifies s c) P"
  by (induction P) (auto simp: qualifies_def)

lemma find_first:
  "find Q xs = Some x \<longleftrightarrow> (\<exists>pre post. xs = pre @ x # post \<and> Q x \<and> (\<forall>y\<in>set pre. \<not> Q y))"
proof (induction xs)
  case Nil
  then show ?case by simp
next
  case (Cons a xs)
  show ?case
  proof (cases "Q a")
    case True
    have "(\<exists>pre post. a # xs = pre @ x # post \<and> Q x \<and> (\<forall>y\<in>set pre. \<not> Q y)) \<longleftrightarrow> a = x"
    proof
      assume "\<exists>pre post. a # xs = pre @ x # post \<and> Q x \<and> (\<forall>y\<in>set pre. \<not> Q y)"
      then obtain pre post where d: "a # xs = pre @ x # post" and n: "\<forall>y\<in>set pre. \<not> Q y"
        by blast
      show "a = x"
      proof (cases pre)
        case Nil
        with d show ?thesis by simp
      next
        case (Cons b pre')
        with d have "a = b" by simp
        with Cons n True show ?thesis by simp
      qed
    next
      assume "a = x"
      with True have "a # xs = [] @ x # xs \<and> Q x \<and> (\<forall>y\<in>set []. \<not> Q y)" by simp
      then show "\<exists>pre post. a # xs = pre @ x # post \<and> Q x \<and> (\<forall>y\<in>set pre. \<not> Q y)"
        by blast
    qed
    with True show ?thesis by simp
  next
    case False
    have "(\<exists>pre post. a # xs = pre @ x # post \<and> Q x \<and> (\<forall>y\<in>set pre. \<not> Q y))
      \<longleftrightarrow> (\<exists>pre post. xs = pre @ x # post \<and> Q x \<and> (\<forall>y\<in>set pre. \<not> Q y))"
    proof
      assume "\<exists>pre post. a # xs = pre @ x # post \<and> Q x \<and> (\<forall>y\<in>set pre. \<not> Q y)"
      then obtain pre post where d: "a # xs = pre @ x # post" and q: "Q x"
        and n: "\<forall>y\<in>set pre. \<not> Q y"
        by blast
      show "\<exists>pre post. xs = pre @ x # post \<and> Q x \<and> (\<forall>y\<in>set pre. \<not> Q y)"
      proof (cases pre)
        case Nil
        with d q False show ?thesis by simp
      next
        case (Cons b pre')
        with d n q have "xs = pre' @ x # post \<and> Q x \<and> (\<forall>y\<in>set pre'. \<not> Q y)" by simp
        then show ?thesis by blast
      qed
    next
      assume "\<exists>pre post. xs = pre @ x # post \<and> Q x \<and> (\<forall>y\<in>set pre. \<not> Q y)"
      then obtain pre post where "xs = pre @ x # post" "Q x" "\<forall>y\<in>set pre. \<not> Q y"
        by blast
      with False have "a # xs = (a # pre) @ x # post \<and> Q x \<and> (\<forall>y\<in>set (a # pre). \<not> Q y)"
        by simp
      then show "\<exists>pre post. a # xs = pre @ x # post \<and> Q x \<and> (\<forall>y\<in>set pre. \<not> Q y)"
        by blast
    qed
    with False Cons.IH show ?thesis by simp
  qed
qed

text \<open>
  C2. \<open>match_instruction\<close> is the specification's match: it returns the first instruction,
  in the order of the list, whose from-state is \<open>s\<close> and whose read-symbol is \<open>c\<close> or the
  wildcard (every instruction before it fails to qualify), and it returns no instruction
  exactly when none qualifies. So a wildcard rule for \<open>s\<close> anywhere in the program makes
  every symbol match in state \<open>s\<close>, and a qualifying rule with no qualifying rule before
  it is the one returned, whatever follows it.
\<close>

theorem match_instruction_first_match:
  "match_instruction P s c = spec_match P s c
   \<and> (match_instruction P s c = Some i \<longleftrightarrow>
        (\<exists>pre post. P = pre @ i # post \<and> qualifies s c i \<and> (\<forall>j\<in>set pre. \<not> qualifies s c j)))
   \<and> (match_instruction P s c = None \<longleftrightarrow> (\<forall>j\<in>set P. \<not> qualifies s c j))
   \<and> (i \<in> set P \<and> from_state i = s \<and> head_read i = wildcard
        \<longrightarrow> (\<exists>j. match_instruction P s c = Some j))
   \<and> (qualifies s c i \<and> (\<forall>j\<in>set pre. \<not> qualifies s c j)
        \<longrightarrow> match_instruction (pre @ i # post) s c = Some i)"
proof -
  have a: "match_instruction P s c = find (qualifies s c) P" for P :: "'a program"
    by (simp add: match_instruction_def match_helper_find)
  have b: "match_instruction P s c = Some i \<longleftrightarrow>
        (\<exists>pre post. P = pre @ i # post \<and> qualifies s c i \<and> (\<forall>j\<in>set pre. \<not> qualifies s c j))"
    for P :: "'a program"
    by (simp only: a find_first)
  have c: "match_instruction P s c = None \<longleftrightarrow> (\<forall>j\<in>set P. \<not> qualifies s c j)"
    by (auto simp: a find_None_iff)
  have d: "i \<in> set P \<and> from_state i = s \<and> head_read i = wildcard
        \<longrightarrow> (\<exists>j. match_instruction P s c = Some j)"
  proof
    assume h: "i \<in> set P \<and> from_state i = s \<and> head_read i = wildcard"
    then have "qualifies s c i" by (simp add: qualifies_def)
    with h c have "match_instruction P s c \<noteq> None" by blast
    then show "\<exists>j. match_instruction P s c = Some j" by blast
  qed
  have e: "qualifies s c i \<and> (\<forall>j\<in>set pre. \<not> qualifies s c j)
        \<longrightarrow> match_instruction (pre @ i # post) s c = Some i"
    using b [of "pre @ i # post"] by blast
  from a b c d e show ?thesis unfolding spec_match_def by blast
qed

text \<open>
  In \<open>reverse_prog\<close> the state \<open>rewind\<close> has the rule for \<open>'#'\<close> before its wildcard rule: on
  \<open>'a'\<close> the wildcard rule is the first that qualifies, on \<open>'#'\<close> the specific rule wins over
  the wildcard rule after it, and \<open>take_left\<close> has no rule for \<open>'#'\<close>.
\<close>

theorem match_instruction_first_match_witness:
  "match_instruction reverse_prog (state_of rewind) CHR ''a''
     = Some (instr rewind CHR ''?'' rewind CHR ''?'' CHR ''L'')
   \<and> match_instruction reverse_prog (state_of rewind) CHR ''#''
     = Some (instr rewind CHR ''#'' take_left CHR ''#'' CHR ''R'')
   \<and> match_instruction reverse_prog (state_of take_left) CHR ''#'' = None"
proof -
  let ?s = "state_of rewind"
  let ?i = "instr rewind CHR ''?'' rewind CHR ''?'' CHR ''L''"
  let ?h = "instr rewind CHR ''#'' take_left CHR ''#'' CHR ''R''"
  let ?pre = "take 2 reverse_prog"
  have p: "reverse_prog = (?pre @ [?h]) @ ?i # drop 4 reverse_prog"
    and p': "reverse_prog = ?pre @ ?h # drop 3 reverse_prog"
    by (simp_all add: reverse_prog_def)
  have q: "qualifies ?s CHR ''a'' ?i \<and> (\<forall>j\<in>set (?pre @ [?h]). \<not> qualifies ?s CHR ''a'' j)"
    by (simp add: reverse_prog_def qualifies_def instr_def state_of_def wildcard_def)
  have q': "qualifies ?s CHR ''#'' ?h \<and> (\<forall>j\<in>set ?pre. \<not> qualifies ?s CHR ''#'' j)"
    by (simp add: reverse_prog_def qualifies_def instr_def state_of_def wildcard_def)
  have n: "\<forall>j\<in>set reverse_prog. \<not> qualifies (state_of take_left) CHR ''#'' j"
    by (simp add: reverse_prog_def qualifies_def instr_def state_of_def wildcard_def)
  have a: "match_instruction reverse_prog ?s CHR ''a'' = Some ?i"
    using match_instruction_first_match
      [of _ ?s "CHR ''a''" ?i "?pre @ [?h]" "drop 4 reverse_prog"] q p by metis
  have b: "match_instruction reverse_prog ?s CHR ''#'' = Some ?h"
    using match_instruction_first_match
      [of _ ?s "CHR ''#''" ?h "?pre" "drop 3 reverse_prog"] q' p' by metis
  have c: "match_instruction reverse_prog (state_of take_left) CHR ''#'' = None"
    using match_instruction_first_match [of reverse_prog "state_of take_left" "CHR ''#''"] n
    by blast
  from a b c show ?thesis by blast
qed

section \<open>No matching instruction\<close>

text \<open>
  C3. In a state \<open>s\<close> that is not final, on a tape \<open>T\<close> whose head symbol no instruction of
  \<open>P\<close> matches in state \<open>s\<close>, the run ends at once with the machine as it was, state \<open>s\<close>
  and tape \<open>T\<close> untouched, and the result is reported as not accepted: a result of the
  run, not an error.
\<close>

theorem no_match_stuck:
  assumes "\<not> final s" and "match_instruction P s (head T) = None"
  shows "step \<lparr>state = s, tape = T, program = P\<rparr> = Result \<lparr>state = s, tape = T, program = P\<rparr>
    \<and> run \<lparr>state = s, tape = T, program = P\<rparr> = Some (Inr \<lparr>state = s, tape = T, program = P\<rparr>)
    \<and> print_result_verdict \<lparr>state = s, tape = T, program = P\<rparr> = ''Input not accepted.''"
proof -
  let ?m = "\<lparr>state = s, tape = T, program = P\<rparr>"
  have s: "step ?m = Result ?m" using assms(2) by (simp add: step_def cont_def)
  then have r: "run ?m = Some (Inr ?m)" by (rule step_Result_run)
  have v: "print_result_verdict ?m = ''Input not accepted.''"
    using assms(1) by (simp add: print_result_verdict_def)
  from s r v show ?thesis by simp
qed


text \<open>In \<open>reverse_prog\<close> the state \<open>take_left\<close> has no rule for \<open>'#'\<close>.\<close>

theorem no_match_stuck_witness:
  "\<not> final (state_of take_left)
   \<and> match_instruction reverse_prog (state_of take_left) (head (make_tape ''#ab'')) = None
   \<and> run \<lparr>state = state_of take_left, tape = make_tape ''#ab'', program = reverse_prog\<rparr>
       = Some (Inr \<lparr>state = state_of take_left, tape = make_tape ''#ab'', program = reverse_prog\<rparr>)"
proof -
  have f: "\<not> final (state_of take_left)" by (simp add: state_of_def)
  have n: "match_instruction reverse_prog (state_of take_left) (head (make_tape ''#ab'')) = None"
    by (simp add: match_instruction_def reverse_prog_def instr_def state_of_def wildcard_def)
  show ?thesis using f n no_match_stuck [OF f n] by simp
qed

section \<open>One step of the machine\<close>






text \<open>For any other movement character the machine does not compile.\<close>

lemma step_no_move_tape:
  assumes "\<not> final (state m)"
    and "match_instruction (program m) (state m) (head (tape m)) = Some i"
    and "movement i \<noteq> CHR ''L''" "movement i \<noteq> CHR ''R''" "movement i \<noteq> CHR ''0''"
  shows "step m = Ill_formed (No_move_tape (movement i))"
  using assms by (simp add: step_def cont_def execute_instruction_tape_def move_tape_def)

section \<open>Writing\<close>

text \<open>
  C5. Writing the wildcard, the no-write sentinel, leaves the whole tape as it is, and so
  its head symbol, whatever that symbol was; writing any other symbol \<open>c\<close> makes \<open>c\<close> the
  head symbol and leaves both sides of the tape alone.
\<close>

theorem write_tape_no_write:
  "write_tape T wildcard = T
   \<and> head (write_tape T wildcard) = head T
   \<and> (c \<noteq> wildcard \<longrightarrow>
        head (write_tape T c) = c \<and> left (write_tape T c) = left T
        \<and> right (write_tape T c) = right T)"
  by (simp add: write_tape_def)


theorem write_tape_no_write_witness:
  "write_tape (make_tape ''ab'') CHR ''?'' = make_tape ''ab''
   \<and> write_tape (make_tape ''ab'') CHR ''x'' = make_tape ''xb''"
  using write_tape_no_write [of "make_tape ''ab''" "CHR ''x''"]
  by (simp add: wildcard_def tape.equality)

section \<open>Moving there and back\<close>

lemma cell_at_nil [simp]: "cell_at nil n = empty"
  by (induction n) simp_all

lemma stack_equiv_iff: "stack_equiv s s' \<longleftrightarrow> (\<forall>n. cell_at s n = cell_at s' n)"
proof (induction s s' rule: stack_equiv.induct)
  case 1
  then show ?case by simp
next
  case (2 h t)
  have "(\<forall>n. cell_at nil n = cell_at (stack h t) n) \<longleftrightarrow>
        (cell_at nil 0 = cell_at (stack h t) 0 \<and> (\<forall>n. cell_at nil (Suc n) = cell_at (stack h t) (Suc n)))"
    by (metis nat.exhaust)
  with 2 show ?case by auto
next
  case (3 h t)
  have "(\<forall>n. cell_at (stack h t) n = cell_at nil n) \<longleftrightarrow>
        (cell_at (stack h t) 0 = cell_at nil 0 \<and> (\<forall>n. cell_at (stack h t) (Suc n) = cell_at nil (Suc n)))"
    by (metis nat.exhaust)
  with 3 show ?case by auto
next
  case (4 h t h' t')
  have "(\<forall>n. cell_at (stack h t) n = cell_at (stack h' t') n) \<longleftrightarrow>
        (cell_at (stack h t) 0 = cell_at (stack h' t') 0 \<and> (\<forall>n. cell_at (stack h t) (Suc n) = cell_at (stack h' t') (Suc n)))"
    by (metis nat.exhaust)
  with 4 show ?case by auto
qed

lemma stack_equiv_refl [simp]: "stack_equiv s s"
  by (simp add: stack_equiv_iff)

lemma tape_equiv_iff: "tape_equiv t u \<longleftrightarrow> (\<forall>i. read_at t i = read_at u i)"
proof
  assume "tape_equiv t u"
  then show "\<forall>i. read_at t i = read_at u i"
    by (simp add: tape_equiv_def stack_equiv_iff read_at_def)
next
  assume a: "\<forall>i. read_at t i = read_at u i"
  have h: "head t = head u" using a [rule_format, of 0] by (simp add: read_at_def)
  have l: "cell_at (left t) n = cell_at (left u) n" for n
    using a [rule_format, of "- int n - 1"] by (simp add: read_at_def)
  have r: "cell_at (right t) n = cell_at (right u) n" for n
    using a [rule_format, of "int n + 1"] by (simp add: read_at_def)
  show "tape_equiv t u"
    using h l r by (simp add: tape_equiv_def stack_equiv_iff)
qed

lemma stack_top_tail_equiv: "stack_equiv (stack (top s) (tail s)) s"
  by (cases s) simp_all

text \<open>
  C6. Moving left and then right, or right and then left, gives a tape with the head
  symbol of \<open>T\<close> and with the contents of \<open>T\<close>: at every distance from the head it reads the
  same symbol as \<open>T\<close>, a cell that was never made reading as blank. The tape itself is
  \<open>T\<close> again only when the side moved onto first had a cell; otherwise it has one more
  blank cell than \<open>T\<close>.
\<close>

theorem move_there_and_back:
  "head (move_right (move_left T)) = head T
   \<and> tape_equiv (move_right (move_left T)) T
   \<and> (\<forall>i. read_at (move_right (move_left T)) i = read_at T i)
   \<and> head (move_left (move_right T)) = head T
   \<and> tape_equiv (move_left (move_right T)) T
   \<and> (\<forall>i. read_at (move_left (move_right T)) i = read_at T i)
   \<and> (move_right (move_left T) = T \<longleftrightarrow> left T \<noteq> nil)
   \<and> (move_left (move_right T) = T \<longleftrightarrow> right T \<noteq> nil)"
proof -
  have lr: "tape_equiv (move_right (move_left T)) T"
    by (simp add: move_left_def move_right_def push_def pop_def tape_equiv_def
        stack_top_tail_equiv)
  have rl: "tape_equiv (move_left (move_right T)) T"
    by (simp add: move_left_def move_right_def push_def pop_def tape_equiv_def
        stack_top_tail_equiv)
  have lr_read: "\<forall>i. read_at (move_right (move_left T)) i = read_at T i"
    using lr tape_equiv_iff by blast
  have rl_read: "\<forall>i. read_at (move_left (move_right T)) i = read_at T i"
    using rl tape_equiv_iff by blast
  have lr_head: "head (move_right (move_left T)) = head T"
    using lr by (simp add: tape_equiv_def)
  have rl_head: "head (move_left (move_right T)) = head T"
    using rl by (simp add: tape_equiv_def)
  have lr_same: "move_right (move_left T) = T \<longleftrightarrow> left T \<noteq> nil"
    by (cases T; cases "left T") (simp_all add: move_left_def move_right_def push_def pop_def)
  have rl_same: "move_left (move_right T) = T \<longleftrightarrow> right T \<noteq> nil"
    by (cases T; cases "right T") (simp_all add: move_left_def move_right_def push_def pop_def)
  from lr rl lr_read rl_read lr_head rl_head lr_same rl_same show ?thesis by blast
qed

text \<open>On the tape \<open>make_tape<>\<close> the round trip leaves a blank cell behind.\<close>

theorem move_there_and_back_witness:
  "move_right (move_left (make_tape [])) = \<lparr>left = stack empty nil, head = empty, right = nil\<rparr>
   \<and> tape_equiv (move_right (move_left (make_tape []))) (make_tape [])
   \<and> move_right (move_left (make_tape [])) \<noteq> make_tape []
   \<and> move_left (move_right (make_tape ''ab'')) = make_tape ''ab''"
proof -
  have a: "move_right (move_left (make_tape [])) =
      \<lparr>left = stack empty nil, head = empty, right = nil\<rparr>"
    by (simp add: move_left_def move_right_def push_def pop_def empty_def)
  have b: "left (make_tape []) = nil" and c: "right (make_tape ''ab'') \<noteq> nil"
    by simp_all
  from move_there_and_back [of "make_tape []"] move_there_and_back [of "make_tape ''ab''"] a b c
  show ?thesis by metis
qed

section \<open>Making a tape\<close>

lemma cells_stackify: "cells (stackify cs) = cs"
  by (induction cs) simp_all

text \<open>
  C7. The tape made from a sequence that is not empty has the first symbol under the
  head, no cell to the left, and the other symbols to the right, in their order; the
  tape made from the empty sequence has a blank under the head and no cell on either
  side.
\<close>

theorem make_tape_layout:
  "head (make_tape (c # cs)) = c
   \<and> left (make_tape (c # cs)) = nil
   \<and> right (make_tape (c # cs)) = stackify cs
   \<and> cells (right (make_tape (c # cs))) = cs
   \<and> tape_cells (make_tape (c # cs)) = c # cs
   \<and> make_tape [] = \<lparr>left = nil, head = empty, right = nil\<rparr>
   \<and> tape_cells (make_tape []) = [empty]"
  by (simp add: cells_stackify tape_cells_def empty_def)

theorem make_tape_layout_witness:
  "make_tape ''abc'' = \<lparr>left = nil, head = CHR ''a'', right = stack CHR ''b'' (stack CHR ''c'' nil)\<rparr>
   \<and> tape_cells (make_tape ''abc'') = ''abc''"
  using make_tape_layout [of "CHR ''a''" "''bc''"] by simp

section \<open>The reversal machine on \<open>abaabba\<close>\<close>

lemma reverse_machine1_steps:
  "steps 67 reverse_machine1 =
     Result \<lparr>state = state_of end_state,
             tape = \<lparr>left = stackify ''abaabba#'', head = CHR ''#'', right = stackify ''#''\<rparr>,
             program = reverse_prog\<rparr>"
  by code_simp

text \<open>
  C8. The run of \<open>reverse_prog\<close> from the state \<open>put_right_marker\<close> on the tape \<open>abaabba\<close> ends,
  in the final state \<open>end\<close>, so that it is reported as accepted. The last tape is
  \<open>#abbaaba##\<close> with the head on the blank after the last letter: without its blanks it
  spells \<open>abbaaba\<close>, the input reversed.
\<close>

theorem reverse_abaabba:
  "run reverse_machine1 =
     Some (Inr \<lparr>state = state_of end_state,
                tape = \<lparr>left = stackify ''abaabba#'', head = CHR ''#'', right = stackify ''#''\<rparr>,
                program = reverse_prog\<rparr>)
   \<and> final (state_of end_state)
   \<and> print_result_verdict
        \<lparr>state = state_of end_state,
         tape = \<lparr>left = stackify ''abaabba#'', head = CHR ''#'', right = stackify ''#''\<rparr>,
         program = reverse_prog\<rparr> = ''Input accepted.''
   \<and> tape_cells \<lparr>left = stackify ''abaabba#'', head = CHR ''#'', right = stackify ''#''\<rparr>
        = ''#abbaaba##''
   \<and> filter (\<lambda>c. c \<noteq> empty)
        (tape_cells \<lparr>left = stackify ''abaabba#'', head = CHR ''#'', right = stackify ''#''\<rparr>)
        = ''abbaaba''
   \<and> print_tape \<lparr>left = stackify ''abaabba#'', head = CHR ''#'', right = stackify ''#''\<rparr>
        = ''# a b b a a b a [#] # '' @ [CHR 0x0A]"
proof -
  have "outcome (steps 67 reverse_machine1) =
     Some (Inr \<lparr>state = state_of end_state,
                tape = \<lparr>left = stackify ''abaabba#'', head = CHR ''#'', right = stackify ''#''\<rparr>,
                program = reverse_prog\<rparr>)"
    by (simp only: reverse_machine1_steps outcome.simps)
  then have r: "run reverse_machine1 =
     Some (Inr \<lparr>state = state_of end_state,
                tape = \<lparr>left = stackify ''abaabba#'', head = CHR ''#'', right = stackify ''#''\<rparr>,
                program = reverse_prog\<rparr>)"
    by (rule steps_outcome_run)
  have f: "final (state_of end_state)" by (simp add: state_of_def)
  have c: "tape_cells \<lparr>left = stackify ''abaabba#'', head = CHR ''#'', right = stackify ''#''\<rparr>
        = ''#abbaaba##''"
    by (simp add: tape_cells_def)
  have p: "print_tape \<lparr>left = stackify ''abaabba#'', head = CHR ''#'', right = stackify ''#''\<rparr>
        = ''# a b b a a b a [#] # '' @ [CHR 0x0A]"
    by (simp add: print_tape_def)
  from r f c p show ?thesis by (simp add: print_result_verdict_def empty_def)
qed

theorem reverse_abaabba_witness:
  "\<exists>r. run reverse_machine1 = Some (Inr r) \<and> final (state r)
        \<and> filter (\<lambda>c. c \<noteq> empty) (tape_cells (tape r)) = ''abbaaba''"
proof -
  let ?t = "\<lparr>left = stackify ''abaabba#'', head = CHR ''#'', right = stackify ''#''\<rparr>"
  let ?r = "\<lparr>state = state_of end_state, tape = ?t, program = reverse_prog\<rparr>"
  have a: "run reverse_machine1 = Some (Inr ?r)"
    using reverse_abaabba by blast
  have b: "final (state ?r)"
    by (simp add: state_of_def)
  have "filter (\<lambda>c. c \<noteq> empty) (tape_cells ?t) = ''abbaaba''"
    using reverse_abaabba by blast
  moreover have "tape ?r = ?t"
    by (simp only: machine.simps)
  ultimately have c: "filter (\<lambda>c. c \<noteq> empty) (tape_cells (tape ?r)) = ''abbaaba''"
    by (simp only:)
  from a b c show ?thesis by blast
qed

section \<open>A machine that never halts\<close>

lemma step_stay_machine: "step (stay_machine S) = Run (stay_machine S)"
  by (simp add: step_def stay_machine_def stay_prog_def stay_state_def match_instruction_def
      cont_def execute_instruction_tape_def execute_instruction_state_def move_tape_def
      write_tape_def wildcard_def)

lemma steps_stay_machine: "steps n (stay_machine S) = Run (stay_machine S)"
  by (induction n) (simp_all add: step_stay_machine)

text \<open>
  C9. The machine with the single instruction \<open>(S, '#', S, '#', '0')\<close>, where \<open>S\<close> is not
  final, on the blank tape: its state is not final and the instruction matches, one
  step gives the same machine again, so after any number of steps the machine is still
  that one, still to be run; no number of steps gives a result, and \<open>run\<close> gives none.
\<close>

theorem stay_machine_diverges:
  "\<not> final (state (stay_machine S))
   \<and> match_instruction (program (stay_machine S)) (state (stay_machine S))
        (head (tape (stay_machine S))) = Some (hd (stay_prog S))
   \<and> step (stay_machine S) = Run (stay_machine S)
   \<and> (\<forall>n. steps n (stay_machine S) = Run (stay_machine S))
   \<and> (\<forall>n. outcome (steps n (stay_machine S)) = None)
   \<and> run (stay_machine S) = None"
proof -
  have a: "\<not> final (state (stay_machine S))"
    by (simp add: stay_machine_def stay_state_def)
  have b: "match_instruction (program (stay_machine S)) (state (stay_machine S))
        (head (tape (stay_machine S))) = Some (hd (stay_prog S))"
    by (simp add: stay_machine_def stay_prog_def match_instruction_def)
  have c: "\<forall>n. outcome (steps n (stay_machine S)) = None"
    by (simp add: steps_stay_machine)
  then have "run (stay_machine S) = None" by (rule run_None_iff [THEN iffD2])
  with a b c show ?thesis by (simp add: steps_stay_machine step_stay_machine)
qed

theorem stay_machine_diverges_witness:
  "run (stay_machine put_right_marker) = None
   \<and> steps 1000 (stay_machine put_right_marker) = Run (stay_machine put_right_marker)"
  using stay_machine_diverges [of put_right_marker] by simp

section \<open>The wildcard is never written\<close>

lemma cells_tail: "set (cells (tail s)) \<subseteq> set (cells s)"
  by (cases s) auto

lemma top_cells: "top s = empty \<or> top s \<in> set (cells s)"
  by (cases s) auto

lemma empty_not_wildcard: "empty \<noteq> wildcard"
  by (simp add: empty_def wildcard_def)

lemma cells_push: "cells (push c s) = c # cells s"
  by (simp add: push_def)

lemma move_left_cells:
  "set (tape_cells (move_left t)) \<subseteq> insert empty (set (tape_cells t))"
  using cells_tail [of "left t"] top_cells [of "left t"]
  by (auto simp: tape_cells_def move_left_def pop_def cells_push)

lemma move_right_cells:
  "set (tape_cells (move_right t)) \<subseteq> insert empty (set (tape_cells t))"
  using cells_tail [of "right t"] top_cells [of "right t"]
  by (auto simp: tape_cells_def move_right_def pop_def cells_push)

lemma write_tape_cells:
  "wildcard \<in> set (tape_cells (write_tape t c)) \<Longrightarrow> wildcard \<in> set (tape_cells t)"
  by (auto simp: tape_cells_def write_tape_def split: if_splits)

lemma move_tape_cells:
  assumes "move_tape d t = Some t'" and "wildcard \<notin> set (tape_cells t)"
  shows "wildcard \<notin> set (tape_cells t')"
  using assms move_left_cells [of t] move_right_cells [of t] empty_not_wildcard
  by (auto simp: move_tape_def split: if_splits)

lemma execute_instruction_tape_cells:
  assumes "execute_instruction_tape i t = Some t'" and "wildcard \<notin> set (tape_cells t)"
  shows "wildcard \<notin> set (tape_cells t')"
proof -
  from assms(2) have "wildcard \<notin> set (tape_cells (write_tape t (head_write i)))"
    using write_tape_cells by blast
  with assms(1) show ?thesis
    unfolding execute_instruction_tape_def by (rule move_tape_cells)
qed

lemma step_Result: "step m = Result r \<Longrightarrow> r = m"
  by (cases "match_instruction (program m) (state m) (head (tape m))";
      cases "cont m (match_instruction (program m) (state m) (head (tape m)))")
     (auto simp: step_def split: option.splits)

lemma step_Run_cells:
  assumes "step m = Run m'" and "wildcard \<notin> set (tape_cells (tape m))"
  shows "wildcard \<notin> set (tape_cells (tape m'))"
proof (cases "match_instruction (program m) (state m) (head (tape m))")
  case None
  with assms(1) show ?thesis
    by (cases "cont m None") (simp_all add: step_def)
next
  case (Some i)
  show ?thesis
  proof (cases "cont m (Some i)")
    case True
    with Some assms(1) obtain t where "execute_instruction_tape i (tape m) = Some t"
      and "tape m' = t"
      by (auto simp: step_def split: option.splits)
    with assms(2) show ?thesis using execute_instruction_tape_cells by blast
  next
    case False
    with Some assms(1) show ?thesis by (simp add: step_def)
  qed
qed

lemma steps_cells:
  assumes "steps n m = Run m' \<or> steps n m = Result m'"
    and "wildcard \<notin> set (tape_cells (tape m))"
  shows "wildcard \<notin> set (tape_cells (tape m'))"
  using assms
proof (induction n arbitrary: m)
  case 0
  then show ?case by simp
next
  case (Suc n)
  show ?case
  proof (cases "step m")
    case (Result r)
    with Suc.prems(1) have "m' = r" by simp
    with Result Suc.prems(2) show ?thesis using step_Result by blast
  next
    case (Run m1)
    with Suc.prems(1) have "steps n m1 = Run m' \<or> steps n m1 = Result m'" by simp
    moreover from Run Suc.prems(2) have "wildcard \<notin> set (tape_cells (tape m1))"
      by (rule step_Run_cells)
    ultimately show ?thesis by (rule Suc.IH)
  next
    case (Ill_formed e)
    with Suc.prems(1) show ?thesis by simp
  qed
qed

text \<open>
  C10. When no cell of the tape of a machine holds \<open>'?'\<close>, no cell of the tape holds \<open>'?'\<close>
  after any number of steps, whether the machine is then still running or has halted,
  whatever the program is; nor does the tape of the result of \<open>run\<close>, when there is one.
  Writing any symbol at all on such a tape gives a tape without \<open>'?'\<close>, since writing \<open>'?'\<close>
  writes nothing.
\<close>

theorem no_wildcard_on_tape:
  assumes "wildcard \<notin> set (tape_cells (tape m))"
  shows "(steps n m = Run m' \<or> steps n m = Result m'
            \<longrightarrow> wildcard \<notin> set (tape_cells (tape m')))
    \<and> (run m = Some (Inr r) \<longrightarrow> wildcard \<notin> set (tape_cells (tape r)))
    \<and> wildcard \<notin> set (tape_cells (write_tape (tape m) c))"
proof -
  have a: "steps n m = Run m' \<or> steps n m = Result m'
            \<longrightarrow> wildcard \<notin> set (tape_cells (tape m'))"
    using assms steps_cells by blast
  have b: "run m = Some (Inr r) \<longrightarrow> wildcard \<notin> set (tape_cells (tape r))"
  proof
    assume "run m = Some (Inr r)"
    then obtain k where "outcome (steps k m) = Some (Inr r)"
      using run_outcome_steps by blast
    then have "steps k m = Result r" by (cases "steps k m") simp_all
    with assms show "wildcard \<notin> set (tape_cells (tape r))" using steps_cells by blast
  qed
  have c: "wildcard \<notin> set (tape_cells (write_tape (tape m) c))"
    using assms write_tape_cells by blast
  from a b c show ?thesis by blast
qed

text \<open>
  The second rule of \<open>reverse_prog\<close> has \<open>'?'\<close> as its write-symbol; after it has been used
  twice on \<open>abaabba\<close> the tape still holds the letters of the input only.
\<close>

theorem no_wildcard_on_tape_witness:
  "wildcard \<notin> set (tape_cells (tape reverse_machine1))
   \<and> steps 2 reverse_machine1 =
       Run \<lparr>state = state_of put_right_marker,
            tape = \<lparr>left = stackify ''ba'', head = CHR ''a'', right = stackify ''abba''\<rparr>,
            program = reverse_prog\<rparr>
   \<and> wildcard \<notin> set (tape_cells \<lparr>left = stackify ''ba'', head = CHR ''a'', right = stackify ''abba''\<rparr>)"
proof -
  have w: "wildcard \<notin> set (tape_cells (tape reverse_machine1))"
    by (simp add: reverse_machine1_def reverse_tape1_def tape_cells_def wildcard_def)
  have s: "steps 2 reverse_machine1 =
       Run \<lparr>state = state_of put_right_marker,
            tape = \<lparr>left = stackify ''ba'', head = CHR ''a'', right = stackify ''abba''\<rparr>,
            program = reverse_prog\<rparr>"
    by code_simp
  from no_wildcard_on_tape
      [OF w, of 2 "\<lparr>state = state_of put_right_marker,
            tape = \<lparr>left = stackify ''ba'', head = CHR ''a'', right = stackify ''abba''\<rparr>,
            program = reverse_prog\<rparr>"] s w
  show ?thesis by simp
qed

end
